theory Spec2Isabelle
  imports Main "HOL-Library.Sublist" "HOL-Library.Multiset"
begin

section \<open>Paths: the functions of Node's \<open>path\<close> module that the sources import\<close>

text \<open>
  The sources import \<open>dirname\<close>, \<open>extname\<close>, \<open>join\<close>, \<open>normalize\<close> and
  \<open>relative\<close> from \<open>node:path\<close>. They are modelled here for POSIX paths. A path is
  a \<open>string\<close>; the separator is the slash. \<open>normalize\<close> (here \<open>normalize_path\<close>),
  \<open>join\<close> and \<open>relative\<close> work on the segments between slashes, as Node's
  \<open>normalizeString\<close> does one segment at a time; \<open>dirname\<close> and \<open>extname\<close> follow
  Node's character scans.
\<close>

definition startsWith :: "string \<Rightarrow> string \<Rightarrow> bool" where
  "startsWith s p = prefix p s"

fun split_slash :: "string \<Rightarrow> string list" where
  "split_slash [] = [[]]"
| "split_slash (c # cs) =
     (if c = CHR ''/'' then [] # split_slash cs
      else (case split_slash cs of [] \<Rightarrow> [[c]] | seg # segs \<Rightarrow> (c # seg) # segs))"

fun join_slash :: "string list \<Rightarrow> string" where
  "join_slash [] = []"
| "join_slash [s] = s"
| "join_slash (s # t # ss) = s @ ''/'' @ join_slash (t # ss)"

text \<open>
  One segment of \<open>normalizeString\<close>: an empty segment and \<open>.\<close> are dropped; \<open>..\<close>
  removes the last kept segment unless there is none or it is \<open>..\<close> itself, in which
  case it is kept when \<open>allowAboveRoot\<close> holds and dropped otherwise; any other segment
  is appended.
\<close>

definition norm_step :: "bool \<Rightarrow> string list \<Rightarrow> string \<Rightarrow> string list" where
  "norm_step allowAboveRoot res seg =
     (if seg = [] \<or> seg = ''.'' then res
      else if seg = ''..'' then
        (if res \<noteq> [] \<and> last res \<noteq> ''..'' then butlast res
         else if allowAboveRoot then res @ [''..''] else res)
      else res @ [seg])"

definition norm_segs :: "bool \<Rightarrow> string \<Rightarrow> string list" where
  "norm_segs allowAboveRoot path = foldl (norm_step allowAboveRoot) [] (split_slash path)"

definition normalizeString :: "string \<Rightarrow> bool \<Rightarrow> string" where
  "normalizeString path allowAboveRoot = join_slash (norm_segs allowAboveRoot path)"

definition isAbsolute :: "string \<Rightarrow> bool" where
  "isAbsolute path = (path \<noteq> [] \<and> hd path = CHR ''/'')"

definition normalize_path :: "string \<Rightarrow> string" where
  "normalize_path path =
     (if path = [] then ''.''
      else
        let trailingSeparator = (last path = CHR ''/'');
            p = normalizeString path (\<not> isAbsolute path)
        in if p = [] then (if isAbsolute path then ''/'' else if trailingSeparator then ''./'' else ''.'')
           else (if isAbsolute path then ''/'' else []) @ p @ (if trailingSeparator then ''/'' else []))"

definition join :: "string list \<Rightarrow> string" where
  "join args =
     (let parts = filter (\<lambda>arg. arg \<noteq> []) args
      in if parts = [] then ''.'' else normalize_path (join_slash parts))"

text \<open>
  \<open>dirname\<close> scans from the last character down to index 1 for the slash that ends the
  directory part, skipping the slashes that end the path.
\<close>

fun dirname_end :: "string \<Rightarrow> nat \<Rightarrow> bool \<Rightarrow> nat option" where
  "dirname_end path 0 matchedSlash = None"
| "dirname_end path (Suc i) matchedSlash =
     (if path ! Suc i = CHR ''/''
      then (if \<not> matchedSlash then Some (Suc i) else dirname_end path i matchedSlash)
      else dirname_end path i False)"

definition dirname :: "string \<Rightarrow> string" where
  "dirname path =
     (if path = [] then ''.''
      else
        let hasRoot = (hd path = CHR ''/'')
        in case dirname_end path (length path - 1) True of
             None \<Rightarrow> if hasRoot then ''/'' else ''.''
           | Some e \<Rightarrow> if hasRoot \<and> e = 1 then ''//'' else take e path)"

text \<open>
  \<open>extname\<close> scans from the last character down to index 0, keeping the position of
  the last dot of the last path component and whether a character other than a dot
  stands before it.
\<close>

record extname_state =
  startDot :: "nat option"
  startPart :: nat
  endPos :: "nat option"
  matchedSlash :: bool
  preDotState :: int

fun extname_scan :: "string \<Rightarrow> nat \<Rightarrow> extname_state \<Rightarrow> extname_state" where
  "extname_scan path 0 st = st"
| "extname_scan path (Suc i) st =
     (let code = path ! i
      in if code = CHR ''/''
         then (if \<not> matchedSlash st then st\<lparr>startPart := i + 1\<rparr> else extname_scan path i st)
         else
           let st1 = (if endPos st = None then st\<lparr>matchedSlash := False, endPos := Some (i + 1)\<rparr>
                      else st);
               st2 = (if code = CHR ''.''
                      then (if startDot st1 = None then st1\<lparr>startDot := Some i\<rparr>
                            else if preDotState st1 \<noteq> 1 then st1\<lparr>preDotState := 1\<rparr> else st1)
                      else if startDot st1 \<noteq> None then st1\<lparr>preDotState := - 1\<rparr> else st1)
           in extname_scan path i st2)"

definition extname :: "string \<Rightarrow> string" where
  "extname path =
     (let st = extname_scan path (length path)
                 \<lparr>startDot = None, startPart = 0, endPos = None, matchedSlash = True,
                  preDotState = 0\<rparr>
      in case (startDot st, endPos st) of
           (Some sd, Some e) \<Rightarrow>
             if preDotState st = 0 \<or> (preDotState st = 1 \<and> sd = e - 1 \<and> sd = startPart st + 1)
             then [] else take (e - sd) (drop sd path)
         | _ \<Rightarrow> [])"

text \<open>
  \<open>resolve\<close> of one path against the working directory \<open>cwd\<close> (an absolute path), as
  the list of its segments; \<open>relative\<close> resolves both paths, drops their common leading
  segments, and climbs out of what is left of \<open>from\<close>.
\<close>

definition resolve_segs :: "string \<Rightarrow> string \<Rightarrow> string list" where
  "resolve_segs cwd path =
     norm_segs False (if isAbsolute path then path else cwd @ ''/'' @ path)"

definition relative :: "string \<Rightarrow> string \<Rightarrow> string \<Rightarrow> string" where
  "relative cwd from to =
     (if from = to then []
      else
        let f = resolve_segs cwd from; t = resolve_segs cwd to
        in if f = t then []
           else
             let n = length (longest_common_prefix f t)
             in join_slash (replicate (length f - n) ''..'' @ drop n t))"

section \<open>PathGuard: \<open>getLocalPath\<close>\<close>

text \<open>The functions of this and the next section are those of \<open>src/unnamed/part_000\<close>.\<close>

text \<open>The test \<open>/^\w+:/\<close>: one or more word characters, then a colon.\<close>

definition is_word_char :: "char \<Rightarrow> bool" where
  "is_word_char c =
     (let n = (of_char c :: nat)
      in (97 \<le> n \<and> n \<le> 122) \<or> (65 \<le> n \<and> n \<le> 90) \<or> (48 \<le> n \<and> n \<le> 57) \<or> n = 95)"

definition is_url :: "string \<Rightarrow> bool" where
  "is_url name =
     (takeWhile is_word_char name \<noteq> []
      \<and> (case dropWhile is_word_char name of [] \<Rightarrow> False | c # _ \<Rightarrow> c = CHR '':''))"

definition getLocalPath :: "string \<Rightarrow> string \<Rightarrow> string option" where
  "getLocalPath sourcePath name =
     (if is_url name then None
      else
        let path = join [dirname (if startsWith sourcePath ''/'' then drop (length ''/'') sourcePath
                                  else sourcePath), name]
        in if startsWith path ''../'' then None else Some path)"

section \<open>FileWalker: \<open>visitFiles\<close> and \<open>visitMarkdownFiles\<close>\<close>

text \<open>
  The file system is what the walk asks of it: \<open>stat\<close> and \<open>readdir\<close>, each of which
  returns or throws, and the working directory that \<open>relative\<close> resolves against. Of
  the \<open>Stats\<close> object the walk reads \<open>isDirectory()\<close> and \<open>ino\<close>; \<open>dev\<close> is there
  too and is never read.
\<close>

datatype error = CircularDirectory string | FsError string | ResolveError string

record stats =
  isDirectory :: bool
  ino :: nat
  dev :: nat

record fs =
  stat :: "string \<Rightarrow> error + stats"
  readdir :: "string \<Rightarrow> error + string list"
  cwd :: string

text \<open>
  The state of the generator: \<open>queue\<close> holds the paths the \<open>for ... of\<close> loop has not
  reached yet (the array from the loop's index on; \<open>push\<close> appends), \<open>visited\<close> is the
  set of inode numbers, \<open>yielded\<close> the values yielded so far.
\<close>

record walk_state =
  queue :: "string list"
  visited :: "nat set"
  yielded :: "string list"

datatype step = Done | Throw error | Next walk_state

datatype outcome = Completed | Threw error

text \<open>One turn of the loop body.\<close>

definition visit_step :: "fs \<Rightarrow> string \<Rightarrow> walk_state \<Rightarrow> step" where
  "visit_step fs root s =
     (case queue s of
        [] \<Rightarrow> Done
      | path # rest \<Rightarrow>
          (case stat fs path of
             Inl e \<Rightarrow> Throw e
           | Inr status \<Rightarrow>
               if isDirectory status then
                 (if ino status \<in> visited s then Throw (CircularDirectory path)
                  else
                    (case readdir fs path of
                       Inl e \<Rightarrow> Throw e
                     | Inr entries \<Rightarrow>
                         Next (s\<lparr>queue := rest @ map (\<lambda>entry. join [path, entry]) entries,
                                 visited := insert (ino status) (visited s)\<rparr>)))
               else Next (s\<lparr>queue := rest, yielded := yielded s @ [relative (cwd fs) root path]\<rparr>)))"

text \<open>
  The loop. A walk that never ends has the value \<open>None\<close>; one that ends gives what it
  yielded and how it ended.
\<close>

partial_function (option) visit_loop ::
  "fs \<Rightarrow> string \<Rightarrow> walk_state \<Rightarrow> (string list \<times> outcome) option" where
  "visit_loop fs root s =
     (case visit_step fs root s of
        Done \<Rightarrow> Some (yielded s, Completed)
      | Throw e \<Rightarrow> Some (yielded s, Threw e)
      | Next s' \<Rightarrow> visit_loop fs root s')"

declare visit_loop.simps [code]

definition initial_state :: "string \<Rightarrow> walk_state" where
  "initial_state root = \<lparr>queue = [root], visited = {}, yielded = []\<rparr>"

definition visitFiles :: "fs \<Rightarrow> string \<Rightarrow> (string list \<times> outcome) option" where
  "visitFiles fs root = (let root = normalize_path root in visit_loop fs root (initial_state root))"

fun markdown_only :: "string list \<Rightarrow> string list" where
  "markdown_only [] = []"
| "markdown_only (file # files) =
     (if extname file \<noteq> ''.md'' then markdown_only files else file # markdown_only files)"

definition visitMarkdownFiles :: "fs \<Rightarrow> string \<Rightarrow> (string list \<times> outcome) option" where
  "visitMarkdownFiles fs root =
     (case visitFiles fs root of
        None \<Rightarrow> None
      | Some (files, result) \<Rightarrow> Some (markdown_only files, result))"

section \<open>SpecifierResolver: \<open>resolveImport\<close>\<close>

text \<open>
  The functions of this and the next section are those of \<open>src/src/rollup.ts\<close>.
  \<open>resolveImport\<close> calls four functions of other modules, which are parameters here:
  \<open>relativeUrl\<close>, \<open>getClientPath\<close>, \<open>isPathImport\<close> and the package resolver
  \<open>resolveNpmImport\<close>, which returns a location or throws. \<open>JSON.stringify\<close>, which
  the rewriter of the next section calls, is a parameter too. A specifier is a string
  or a syntax-tree node. A result is \<open>null\<close> (\<open>None\<close>) or an object with an \<open>id\<close>
  (here \<open>id'\<close>) and, where the source writes one, an \<open>external\<close> property.
\<close>

record collaborators =
  relativeUrl :: "string \<Rightarrow> string \<Rightarrow> string"
  getClientPath :: "string \<Rightarrow> string"
  isPathImport :: "string \<Rightarrow> bool"
  resolveNpmImport :: "string \<Rightarrow> error + string"
  JSON_stringify :: "string \<Rightarrow> string"

datatype 'node specifier = StringSpecifier string | NodeSpecifier 'node

record resolve_id_result =
  id' :: string
  external :: "bool option"

definition client_asset :: "collaborators \<Rightarrow> string \<Rightarrow> string \<Rightarrow> resolve_id_result option" where
  "client_asset c source path =
     Some \<lparr>id' = relativeUrl c source (getClientPath c path), external = Some True\<rparr>"

definition resolveImport ::
  "collaborators \<Rightarrow> string \<Rightarrow> 'node specifier \<Rightarrow> error + resolve_id_result option" where
  "resolveImport c source spec =
     (case spec of
        NodeSpecifier _ \<Rightarrow> Inr None
      | StringSpecifier specifier \<Rightarrow>
          if startsWith specifier ''observablehq:''
          then Inr (client_asset c source
                      (''./src/client/'' @ drop (length ''observablehq:'') specifier @ ''.js''))
          else if specifier = ''npm:@observablehq/runtime''
          then Inr (client_asset c source ''./src/client/runtime.js'')
          else if specifier = ''npm:@observablehq/stdlib''
          then Inr (client_asset c source ''./src/client/stdlib.js'')
          else if specifier = ''npm:@observablehq/dot''
          then Inr (client_asset c source ''./src/client/stdlib/dot.js'')
          else if specifier = ''npm:@observablehq/duckdb''
          then Inr (client_asset c source ''./src/client/stdlib/duckdb.js'')
          else if specifier = ''npm:@observablehq/inputs''
          then Inr (client_asset c source ''./src/client/stdlib/inputs.js'')
          else if specifier = ''npm:@observablehq/mermaid''
          then Inr (client_asset c source ''./src/client/stdlib/mermaid.js'')
          else if specifier = ''npm:@observablehq/tex''
          then Inr (client_asset c source ''./src/client/stdlib/tex.js'')
          else if specifier = ''npm:@observablehq/sqlite''
          then Inr (client_asset c source ''./src/client/stdlib/sqlite.js'')
          else if specifier = ''npm:@observablehq/xlsx''
          then Inr (client_asset c source ''./src/client/stdlib/xlsx.js'')
          else if specifier = ''npm:@observablehq/zip''
          then Inr (client_asset c source ''./src/client/stdlib/zip.js'')
          else if startsWith specifier ''npm:''
          then (case resolveNpmImport c (drop (length ''npm:'') specifier) of
                  Inl e \<Rightarrow> Inl e
                | Inr resolution \<Rightarrow> Inr (Some \<lparr>id' = resolution, external = None\<rparr>))
          else if source \<noteq> specifier \<and> \<not> isPathImport c specifier
                  \<and> specifier \<noteq> ''@observablehq/inputs''
          then (case resolveNpmImport c specifier of
                  Inl e \<Rightarrow> Inl e
                | Inr resolution \<Rightarrow> Inr (Some \<lparr>id' = resolution, external = Some True\<rparr>))
          else Inr None)"

text \<open>The first-party aliases of the chain above, each with its client asset.\<close>

definition first_party_aliases :: "(string \<times> string) list" where
  "first_party_aliases =
     [(''npm:@observablehq/runtime'', ''./src/client/runtime.js''),
      (''npm:@observablehq/stdlib'', ''./src/client/stdlib.js''),
      (''npm:@observablehq/dot'', ''./src/client/stdlib/dot.js''),
      (''npm:@observablehq/duckdb'', ''./src/client/stdlib/duckdb.js''),
      (''npm:@observablehq/inputs'', ''./src/client/stdlib/inputs.js''),
      (''npm:@observablehq/mermaid'', ''./src/client/stdlib/mermaid.js''),
      (''npm:@observablehq/tex'', ''./src/client/stdlib/tex.js''),
      (''npm:@observablehq/sqlite'', ''./src/client/stdlib/sqlite.js''),
      (''npm:@observablehq/xlsx'', ''./src/client/stdlib/xlsx.js''),
      (''npm:@observablehq/zip'', ''./src/client/stdlib/zip.js'')]"

section \<open>DynamicResolveRewriter: the \<open>transform\<close> hook of \<open>importMetaResolve\<close>\<close>

text \<open>
  Of the syntax tree the hook reads the call expressions: their \<open>start\<close> and \<open>end\<close>
  offsets, the callee and the arguments. The parser and the tree walk are a parameter:
  \<open>calls\<close> lists the call expressions of the program in the order the walk visits them.
\<close>

datatype expression =
    Literal string
  | Identifier string
  | MetaProperty string string
  | MemberExpression expression expression
  | OtherExpression

record call_expression =
  node_start :: nat
  node_end :: nat
  callee :: expression
  arguments :: "expression list"

text \<open>
  Modelled from the spec: \<open>isStringLiteral\<close> and \<open>getStringLiteralValue\<close> of
  \<open>javascript/features.js\<close>, which is not among the sources. The spec speaks of a
  "single string literal argument" and of extracting "the literal argument value":
  \<open>Literal v\<close> is a string literal with the value \<open>v\<close>.
\<close>

fun isStringLiteral :: "expression \<Rightarrow> bool" where
  "isStringLiteral (Literal v) = True"
| "isStringLiteral _ = False"

fun getStringLiteralValue :: "expression \<Rightarrow> string" where
  "getStringLiteralValue (Literal v) = v"
| "getStringLiteralValue _ = []"

text \<open>The test of the \<open>CallExpression\<close> visitor.\<close>

definition eligible :: "call_expression \<Rightarrow> bool" where
  "eligible node =
     (case callee node of
        MemberExpression object property \<Rightarrow>
          (case object of MetaProperty _ _ \<Rightarrow> True | _ \<Rightarrow> False)
          \<and> (case property of Identifier name \<Rightarrow> name = ''resolve'' | _ \<Rightarrow> False)
          \<and> length (arguments node) = 1
          \<and> isStringLiteral (arguments node ! 0)
      | _ \<Rightarrow> False)"

text \<open>
  Modelled from the spec: the class \<open>Sourcemap\<close> of \<open>sourcemap.js\<close>, which is not among
  the sources. The spec asks for "an offset-preserving edit list (collect all edits
  first, sorted by position, then materialize once)", every edit replacing "the exact
  byte range" it names, computed "against the original offsets". \<open>replaceLeft\<close> files
  an edit before the edits that start at or after it; \<open>toString\<close> copies the input
  between the edits and the edits' values in their place.
\<close>

type_synonym edit = "nat \<times> nat \<times> string"

record sourcemap =
  input :: string
  edits :: "edit list"

definition new_Sourcemap :: "string \<Rightarrow> sourcemap" where
  "new_Sourcemap code = \<lparr>input = code, edits = []\<rparr>"

fun insert_edit :: "edit \<Rightarrow> edit list \<Rightarrow> edit list" where
  "insert_edit e [] = [e]"
| "insert_edit e (x # xs) = (if fst x < fst e then x # insert_edit e xs else e # x # xs)"

definition replaceLeft :: "sourcemap \<Rightarrow> nat \<Rightarrow> nat \<Rightarrow> string \<Rightarrow> sourcemap" where
  "replaceLeft output start stop value = output\<lparr>edits := insert_edit (start, stop, value) (edits output)\<rparr>"

fun materialize :: "string \<Rightarrow> nat \<Rightarrow> edit list \<Rightarrow> string" where
  "materialize inp index [] = drop index inp"
| "materialize inp index ((start, stop, value) # es) =
     (if start > index then take (start - index) (drop index inp) else [])
       @ value @ materialize inp stop es"

definition toString :: "sourcemap \<Rightarrow> string" where
  "toString output = materialize (input output) 0 (edits output)"

text \<open>The loop over \<open>resolves\<close>; a throw of the package resolver ends it.\<close>

fun rewrite_resolves ::
  "collaborators \<Rightarrow> call_expression list \<Rightarrow> sourcemap \<Rightarrow> error + sourcemap" where
  "rewrite_resolves c [] output = Inr output"
| "rewrite_resolves c (node # nodes) output =
     (let specifier = getStringLiteralValue (arguments node ! 0)
      in if startsWith specifier ''npm:''
         then (case resolveNpmImport c (drop (length ''npm:'') specifier) of
                 Inl e \<Rightarrow> Inl e
               | Inr resolution \<Rightarrow>
                   rewrite_resolves c nodes
                     (replaceLeft output (node_start node) (node_end node)
                        (JSON_stringify c resolution)))
         else rewrite_resolves c nodes output)"

definition transform ::
  "collaborators \<Rightarrow> (string \<Rightarrow> call_expression list) \<Rightarrow> string \<Rightarrow> error + string option" where
  "transform c calls code =
     (let resolves = filter eligible (calls code)
      in if resolves = [] then Inr None
         else (case rewrite_resolves c resolves (new_Sourcemap code) of
                 Inl e \<Rightarrow> Inl e
               | Inr output \<Rightarrow> Inr (Some (toString output))))"

section \<open>Notions the properties are stated with\<close>

subsection \<open>Leaving the root\<close>

text \<open>
  What it means for a reference to leave the root, said without \<open>normalize\<close>: walking
  the segments of directory and name from the root, a \<open>..\<close> is met at depth 0. An
  absolute path has no level above its root.
\<close>

fun ascends :: "nat \<Rightarrow> string list \<Rightarrow> bool" where
  "ascends depth [] = False"
| "ascends depth (seg # segs) =
     (if seg = [] \<or> seg = ''.'' then ascends depth segs
      else if seg = ''..'' then (case depth of 0 \<Rightarrow> True | Suc d \<Rightarrow> ascends d segs)
      else ascends (Suc depth) segs)"

definition above_root :: "string \<Rightarrow> string \<Rightarrow> bool" where
  "above_root dir name =
     (let joined = join_slash (filter (\<lambda>arg. arg \<noteq> []) [dir, name])
      in \<not> isAbsolute joined \<and> ascends 0 (split_slash joined))"

definition source_dir :: "string \<Rightarrow> string" where
  "source_dir sourcePath =
     dirname (if startsWith sourcePath ''/'' then drop (length ''/'') sourcePath else sourcePath)"

definition seg_ok :: "string \<Rightarrow> bool" where
  "seg_ok s = (s \<noteq> [] \<and> CHR ''/'' \<notin> set s)"


subsection \<open>Rewriting by ranges\<close>

text \<open>
  The literal of an eligible call, and whether it carries the package marker.
\<close>

definition literal_of :: "call_expression \<Rightarrow> string" where
  "literal_of node = getStringLiteralValue (arguments node ! 0)"

definition is_npm :: "call_expression \<Rightarrow> bool" where
  "is_npm node = startsWith (literal_of node) ''npm:''"

text \<open>
  Calls listed in source order: each starts at or after the end of the one before, is
  not empty, and ends within the text.
\<close>

fun in_source_order :: "nat \<Rightarrow> nat \<Rightarrow> call_expression list \<Rightarrow> bool" where
  "in_source_order lo len [] = True"
| "in_source_order lo len (node # nodes) =
     (lo \<le> node_start node \<and> node_start node < node_end node \<and> node_end node \<le> len
      \<and> in_source_order (node_end node) len nodes)"


definition replacements ::
  "collaborators \<Rightarrow> (call_expression \<Rightarrow> string) \<Rightarrow> call_expression list \<Rightarrow> edit list" where
  "replacements c resolution nodes =
     map (\<lambda>node. (node_start node, node_end node, JSON_stringify c (resolution node)))
       (filter is_npm nodes)"



subsection \<open>Directory graphs and trees\<close>

text \<open>
  The inode number of a path that \<open>stat\<close> reports as a directory; the set of all such
  numbers is finite in a finite directory graph.
\<close>

definition dir_ino :: "fs \<Rightarrow> string \<Rightarrow> nat option" where
  "dir_ino fs path =
     (case stat fs path of
        Inl e \<Rightarrow> None
      | Inr status \<Rightarrow> if isDirectory status then Some (ino status) else None)"


text \<open>The paths under a root: the root, and the entries of every directory reached.\<close>

inductive_set reachable :: "fs \<Rightarrow> string \<Rightarrow> string set" for fs :: fs and root :: string where
  root: "root \<in> reachable fs root"
| entry: "path \<in> reachable fs root \<Longrightarrow> dir_ino fs path \<noteq> None
           \<Longrightarrow> readdir fs path = Inr entries \<Longrightarrow> e \<in> set entries
           \<Longrightarrow> join [path, e] \<in> reachable fs root"



text \<open>
  The state after \<open>n\<close> more turns of the loop, if it takes that many, and the turn in
  which the walk descends into a directory with inode number \<open>i\<close>.
\<close>

fun steps :: "fs \<Rightarrow> string \<Rightarrow> nat \<Rightarrow> walk_state \<Rightarrow> walk_state option" where
  "steps fs root 0 s = Some s"
| "steps fs root (Suc n) s =
     (case visit_step fs root s of Next s' \<Rightarrow> steps fs root n s' | _ \<Rightarrow> None)"

definition descends :: "fs \<Rightarrow> walk_state \<Rightarrow> nat \<Rightarrow> bool" where
  "descends fs s i =
     (case queue s of
        [] \<Rightarrow> False
      | path # rest \<Rightarrow> dir_ino fs path = Some i \<and> i \<notin> visited s)"

text \<open>
  A finite directory tree without cycles: a file, or a directory with its device and
  inode numbers and its entries in listing order. \<open>represents fs path t\<close> says that
  the file system below \<open>path\<close> is the tree \<open>t\<close>.
\<close>

datatype fs_tree = FileNode | DirNode nat nat "(string \<times> fs_tree) list"









definition level_files :: "(string list \<times> fs_tree) list \<Rightarrow> string list list" where
  "level_files level = map fst (filter (\<lambda>(names, t). t = FileNode) level)"













subsection \<open>Concrete inputs\<close>

definition example_collaborators :: collaborators where
  "example_collaborators =
     \<lparr>relativeUrl = (\<lambda>source target. source @ ''->'' @ target),
      getClientPath = (\<lambda>path. ''/framework/'' @ path),
      isPathImport = (\<lambda>specifier. startsWith specifier ''./'' \<or> startsWith specifier ''../''
                                   \<or> startsWith specifier ''/''),
      resolveNpmImport = (\<lambda>specifier. Inr (''https://cdn.jsdelivr.net/npm/'' @ specifier @ ''/+esm'')),
      JSON_stringify = (\<lambda>value. ''\"'' @ value @ ''\"'')\<rparr>"

definition meta_resolve_call :: "nat \<Rightarrow> nat \<Rightarrow> string \<Rightarrow> call_expression" where
  "meta_resolve_call start stop specifier =
     \<lparr>node_start = start, node_end = stop,
      callee = MemberExpression (MetaProperty ''import'' ''meta'') (Identifier ''resolve''),
      arguments = [Literal specifier]\<rparr>"


text \<open>
  A project directory with a file and a mount point. The mounted file system is on
  another device, and its root directory has the inode number of the project directory.
\<close>

definition mount_fs :: fs where
  "mount_fs =
     \<lparr>stat = (\<lambda>path.
         if path = ''.'' then Inr \<lparr>isDirectory = True, ino = 2, dev = 1\<rparr>
         else if path = ''a.md'' then Inr \<lparr>isDirectory = False, ino = 7, dev = 1\<rparr>
         else if path = ''mnt'' then Inr \<lparr>isDirectory = True, ino = 2, dev = 2\<rparr>
         else if path = ''mnt/x'' then Inr \<lparr>isDirectory = False, ino = 7, dev = 2\<rparr>
         else Inl (FsError ''ENOENT'')),
      readdir = (\<lambda>path.
         if path = ''.'' then Inr [''a.md'', ''mnt'']
         else if path = ''mnt'' then Inr [''x'']
         else Inl (FsError ''ENOTDIR'')),
      cwd = ''/project''\<rparr>"





section \<open>Properties of the path functions\<close>

text \<open>The examples that Node's documentation gives for these functions.\<close>

lemma node_path_examples:
  "normalize_path ''/foo/bar//baz/asdf/quux/..'' = ''/foo/bar/baz/asdf''"
  "join [''/foo'', ''bar'', ''baz/asdf'', ''quux'', ''..''] = ''/foo/bar/baz/asdf''"
  "dirname ''/foo/bar/baz/asdf/quux'' = ''/foo/bar/baz/asdf''"
  "extname ''index.html'' = ''.html''"
  "extname ''index.coffee.md'' = ''.md''"
  "extname ''index.'' = ''.''"
  "extname ''index'' = []"
  "extname ''.index'' = []"
  "extname ''.index.md'' = ''.md''"
  "relative ''/project'' ''/data/orandea/test/aaa'' ''/data/orandea/impl/bbb'' = ''../../impl/bbb''"
  by code_simp+

lemma split_slash_nonempty: "split_slash p \<noteq> []"
  by (induction p) (auto split: list.splits)

lemma split_slash_no_slash: "s \<in> set (split_slash p) \<Longrightarrow> CHR ''/'' \<notin> set s"
proof (induction p arbitrary: s)
  case Nil
  then show ?case by simp
next
  case (Cons c cs)
  then show ?case
    using split_slash_nonempty [of cs]
    by (cases "split_slash cs") (auto split: if_splits list.splits)
qed

lemma norm_step_seg_ok:
  "list_all seg_ok res \<Longrightarrow> CHR ''/'' \<notin> set seg \<Longrightarrow> list_all seg_ok (norm_step a res seg)"
  by (auto simp: norm_step_def seg_ok_def list_all_iff dest: in_set_butlastD)

lemma foldl_norm_step_seg_ok:
  "list_all seg_ok res \<Longrightarrow> \<forall>s \<in> set segs. CHR ''/'' \<notin> set s
     \<Longrightarrow> list_all seg_ok (foldl (norm_step a) res segs)"
  by (induction segs arbitrary: res) (auto simp: norm_step_seg_ok)

lemma norm_segs_seg_ok: "list_all seg_ok (norm_segs a p)"
  unfolding norm_segs_def
  by (rule foldl_norm_step_seg_ok) (auto simp: split_slash_no_slash)

text \<open>
  The kept segments are some \<open>..\<close> followed by names. They start with \<open>..\<close> exactly
  when the walk over the segments meets a \<open>..\<close> at depth 0.
\<close>

lemma foldl_norm_step_ascends:
  "''..'' \<notin> set ns \<Longrightarrow>
   (let res = foldl (norm_step True) (replicate k ''..'' @ ns) segs in res \<noteq> [] \<and> hd res = ''..'')
     = (0 < k \<or> ascends (length ns) segs)"
proof (induction segs arbitrary: k ns)
  case Nil
  then show ?case by (cases k; cases ns) auto
next
  case (Cons seg segs)
  show ?case
  proof (cases "seg = [] \<or> seg = ''.''")
    case True
    then show ?thesis using Cons.IH [OF Cons.prems, of k] by (auto simp: norm_step_def)
  next
    case False
    show ?thesis
    proof (cases "seg = ''..''")
      case dd: True
      show ?thesis
      proof (cases ns rule: rev_cases)
        case Nil
        have "norm_step True (replicate k ''..'') ''..'' = replicate (Suc k) ''..'' @ []"
          by (cases k) (auto simp: norm_step_def replicate_append_same)
        then show ?thesis using Cons.IH [of "[]" "Suc k"] dd Nil by simp
      next
        case (snoc ms m)
        then have "norm_step True (replicate k ''..'' @ ns) ''..'' = replicate k ''..'' @ ms"
          using Cons.prems by (auto simp: norm_step_def butlast_append)
        then show ?thesis using Cons.IH [of ms k] Cons.prems dd snoc by simp
      qed
    next
      case nd: False
      have "norm_step True (replicate k ''..'' @ ns) seg = replicate k ''..'' @ (ns @ [seg])"
        using False nd by (simp add: norm_step_def)
      then show ?thesis using Cons.IH [of "ns @ [seg]" k] Cons.prems False nd by simp
    qed
  qed
qed

lemma norm_segs_ascends:
  "(norm_segs True p \<noteq> [] \<and> hd (norm_segs True p) = ''..'') = ascends 0 (split_slash p)"
  using foldl_norm_step_ascends [of "[]" 0 "split_slash p"] by (simp add: norm_segs_def Let_def)

lemma join_slash_head:
  "join_slash (s # ss) = s @ (if ss = [] then [] else ''/'' @ join_slash ss)"
  by (cases ss) auto

lemma prefix_dotdot_join_slash:
  assumes "list_all seg_ok res" "prefix ''../'' (join_slash res @ t)" "t = [] \<or> t = ''/''"
  shows "res \<noteq> [] \<and> hd res = ''..''"
proof (cases res)
  case Nil
  then show ?thesis using assms by auto
next
  case (Cons s ss)
  have ok: "s \<noteq> []" "CHR ''/'' \<notin> set s" using assms(1) Cons by (auto simp: seg_ok_def)
  from assms(2) Cons have p: "prefix ''../'' (s @ (if ss = [] then [] else ''/'' @ join_slash ss) @ t)"
    by (simp add: join_slash_head)
  obtain a r where s: "s = a # r" using ok by (cases s) auto
  with p have a: "a = CHR ''.''" by simp
  show ?thesis
  proof (cases r)
    case Nil
    with p s a have "prefix ''./'' ((if ss = [] then [] else ''/'' @ join_slash ss) @ t)" by simp
    then show ?thesis using assms(3) by (auto split: if_splits)
  next
    case (Cons b r')
    with p s a have b: "b = CHR ''.''" by simp
    show ?thesis
    proof (cases r')
      case Nil
      then show ?thesis using s a b Cons \<open>res = s # ss\<close> by simp
    next
      case (Cons c r'')
      with p s a b \<open>r = b # r'\<close> have "c = CHR ''/''" by simp
      then show ?thesis using ok s \<open>r = b # r'\<close> Cons by simp
    qed
  qed
qed

lemma normalize_path_startsWith_dotdot:
  assumes "startsWith (normalize_path p) ''../''"
  shows "\<not> isAbsolute p \<and> ascends 0 (split_slash p)"
proof -
  have ne: "p \<noteq> []" using assms by (auto simp: normalize_path_def startsWith_def)
  have na: "\<not> isAbsolute p"
    using assms ne by (auto simp: normalize_path_def startsWith_def Let_def split: if_splits)
  let ?res = "norm_segs True p"
  have "prefix ''../'' (join_slash ?res @ (if last p = CHR ''/'' then ''/'' else []))"
    using assms ne na
    by (auto simp: normalize_path_def startsWith_def Let_def normalizeString_def split: if_splits)
  then have "?res \<noteq> [] \<and> hd ?res = ''..''"
    using prefix_dotdot_join_slash [OF norm_segs_seg_ok, of True p] by (auto split: if_splits)
  then show ?thesis using na norm_segs_ascends [of p] by simp
qed

lemma normalize_path_ascends:
  assumes "\<not> isAbsolute p" "ascends 0 (split_slash p)"
  shows "normalize_path p = ''..'' \<or> startsWith (normalize_path p) ''../''"
proof -
  have ne: "p \<noteq> []" using assms(2) by auto
  from assms(2) obtain rest where res: "norm_segs True p = ''..'' # rest"
    using norm_segs_ascends [of p] by (cases "norm_segs True p") auto
  then have "join_slash (norm_segs True p) = ''..'' \<or> prefix ''../'' (join_slash (norm_segs True p))"
    by (cases rest) auto
  then show ?thesis
    using ne assms(1) res
    by (auto simp: normalize_path_def startsWith_def Let_def normalizeString_def prefix_def)
qed

lemma dirname_end_pos: "dirname_end p i m = Some e \<Longrightarrow> 0 < e"
  by (induction p i m rule: dirname_end.induct) (auto split: if_splits)

lemma dirname_nonempty: "dirname p \<noteq> []"
  by (auto simp: dirname_def Let_def split: option.splits dest: dirname_end_pos)

section \<open>Properties of \<open>getLocalPath\<close>\<close>

lemma getLocalPath_source_dir:
  "getLocalPath sourcePath name =
     (if is_url name then None
      else if startsWith (join [source_dir sourcePath, name]) ''../'' then None
      else Some (join [source_dir sourcePath, name]))"
  by (simp add: getLocalPath_def source_dir_def Let_def)

lemma join_source_dir:
  "join [source_dir sourcePath, name] =
     normalize_path (join_slash (filter (\<lambda>arg. arg \<noteq> []) [source_dir sourcePath, name]))"
  using dirname_nonempty by (simp add: join_def Let_def source_dir_def)

text \<open>
  A reference that leaves the root is answered with \<open>null\<close>, except when the
  normalized join is exactly \<open>..\<close>: that one is returned.
\<close>

lemma getLocalPath_above_root:
  assumes "above_root (source_dir sourcePath) name"
  shows "getLocalPath sourcePath name = None \<or> getLocalPath sourcePath name = Some ''..''"
proof -
  let ?raw = "join_slash (filter (\<lambda>arg. arg \<noteq> []) [source_dir sourcePath, name])"
  from assms have "\<not> isAbsolute ?raw" "ascends 0 (split_slash ?raw)"
    by (simp_all add: above_root_def Let_def)
  then have "normalize_path ?raw = ''..'' \<or> startsWith (normalize_path ?raw) ''../''"
    by (rule normalize_path_ascends)
  then show ?thesis
    unfolding getLocalPath_source_dir join_source_dir by auto
qed

text \<open>The examples of the specification.\<close>

lemma getLocalPath_examples:
  "getLocalPath ''/a/b.md'' ''../../x'' = None"
  "getLocalPath ''/a/b.md'' ''c.md'' = Some ''a/c.md''"
  "getLocalPath ''docs/a.md'' ''./b.md'' = Some ''docs/b.md''"
  "getLocalPath ''/a/b.md'' ''https://example.com/c.md'' = None"
  by code_simp+

text \<open>
  C1, at the input \<open>getLocalPath("/a/b.md", "../..")\<close>: the reference leaves the root
  (the directory of the source is \<open>a\<close>, and the name climbs two levels), the
  normalized join is exactly \<open>..\<close>, and the function returns that path, not \<open>null\<close>.
\<close>

theorem getLocalPath_returns_dotdot:
  "above_root (source_dir ''/a/b.md'') ''../..''
   \<and> getLocalPath ''/a/b.md'' ''../..'' = Some ''..''"
  by code_simp

text \<open>
  C7: for a name that is not URL-like and whose resolution against the directory of
  the source path stays within the root, \<open>getLocalPath\<close> returns the normalized join of
  that directory (of the source path without its leading slash) and the name.
\<close>

theorem getLocalPath_within_root:
  assumes "\<not> is_url name" and "\<not> above_root (source_dir sourcePath) name"
  shows "getLocalPath sourcePath name = Some (join [source_dir sourcePath, name])"
proof -
  have "\<not> startsWith (join [source_dir sourcePath, name]) ''../''"
  proof
    assume "startsWith (join [source_dir sourcePath, name]) ''../''"
    then have "above_root (source_dir sourcePath) name"
      unfolding join_source_dir
      using normalize_path_startsWith_dotdot by (simp add: above_root_def Let_def)
    with assms(2) show False by simp
  qed
  then show ?thesis using assms(1) by (simp add: getLocalPath_source_dir)
qed

theorem getLocalPath_within_root_witness:
  "\<not> is_url ''c.md'' \<and> \<not> above_root (source_dir ''/a/b.md'') ''c.md''
   \<and> getLocalPath ''/a/b.md'' ''c.md'' = Some ''a/c.md''"
proof -
  have u: "\<not> is_url ''c.md''" by code_simp
  have a: "\<not> above_root (source_dir ''/a/b.md'') ''c.md''" by code_simp
  have j: "join [source_dir ''/a/b.md'', ''c.md''] = ''a/c.md''" by code_simp
  show ?thesis using u a j getLocalPath_within_root [OF u a] by simp
qed

section \<open>Paths of the entries of a directory\<close>
























section \<open>Properties of \<open>resolveImport\<close>\<close>

lemma alias_startsWith_npm:
  assumes "\<not> startsWith specifier ''npm:''"
  shows "specifier \<noteq> ''npm:@observablehq/runtime''"
    "specifier \<noteq> ''npm:@observablehq/stdlib''" "specifier \<noteq> ''npm:@observablehq/dot''"
    "specifier \<noteq> ''npm:@observablehq/duckdb''" "specifier \<noteq> ''npm:@observablehq/inputs''"
    "specifier \<noteq> ''npm:@observablehq/mermaid''" "specifier \<noteq> ''npm:@observablehq/tex''"
    "specifier \<noteq> ''npm:@observablehq/sqlite''" "specifier \<noteq> ''npm:@observablehq/xlsx''"
    "specifier \<noteq> ''npm:@observablehq/zip''"
  using assms by (auto simp: startsWith_def)

lemma resolveImport_bare:
  assumes "\<not> startsWith specifier ''observablehq:''" "\<not> startsWith specifier ''npm:''"
    and "source \<noteq> specifier" "\<not> isPathImport c specifier" "specifier \<noteq> ''@observablehq/inputs''"
    and "resolveNpmImport c specifier = Inr resolution"
  shows "resolveImport c source (StringSpecifier specifier)
           = Inr (Some \<lparr>id' = resolution, external = Some True\<rparr>)"
  using assms alias_startsWith_npm [OF assms(2)] by (simp add: resolveImport_def)

lemma resolveImport_path:
  assumes "isPathImport c specifier" "\<not> startsWith specifier ''observablehq:''"
    "\<not> startsWith specifier ''npm:''"
  shows "resolveImport c source (StringSpecifier specifier) = Inr None"
  using assms alias_startsWith_npm [OF assms(3)] by (simp add: resolveImport_def)

lemma resolveImport_alias:
  assumes "(alias, path) \<in> set first_party_aliases"
  shows "resolveImport c source (StringSpecifier alias) = Inr (client_asset c source path)"
proof -
  from assms have "(alias, path) \<in> set first_party_aliases" .
  then show ?thesis
    unfolding first_party_aliases_def set_simps insert_iff empty_iff prod.inject
    by (elim disjE conjE FalseE) (simp_all add: resolveImport_def startsWith_def)
qed

lemma resolveImport_npm:
  assumes "startsWith specifier ''npm:''" "specifier \<notin> fst ` set first_party_aliases"
    and "resolveNpmImport c (drop (length ''npm:'') specifier) = Inr resolution"
  shows "resolveImport c source (StringSpecifier specifier)
           = Inr (Some \<lparr>id' = resolution, external = None\<rparr>)"
proof -
  from assms(1) obtain rest where "specifier = ''npm:'' @ rest"
    by (auto simp: startsWith_def prefix_def)
  then have "\<not> startsWith specifier ''observablehq:''"
    by (simp add: startsWith_def)
  moreover from assms(2) have "specifier \<noteq> ''npm:@observablehq/runtime''"
    "specifier \<noteq> ''npm:@observablehq/stdlib''" "specifier \<noteq> ''npm:@observablehq/dot''"
    "specifier \<noteq> ''npm:@observablehq/duckdb''" "specifier \<noteq> ''npm:@observablehq/inputs''"
    "specifier \<noteq> ''npm:@observablehq/mermaid''" "specifier \<noteq> ''npm:@observablehq/tex''"
    "specifier \<noteq> ''npm:@observablehq/sqlite''" "specifier \<noteq> ''npm:@observablehq/xlsx''"
    "specifier \<noteq> ''npm:@observablehq/zip''"
    unfolding first_party_aliases_def by force+
  ultimately show ?thesis
    using assms(1,3) by (simp add: resolveImport_def)
qed

text \<open>
  C2, at the specifier \<open>npm:d3\<close>: the result carries the resolver's location as its
  \<open>id\<close> and no \<open>external\<close> property, where the bare specifier \<open>d3\<close>, resolved
  by the same collaborator in the next branch, is marked \<open>external: true\<close>.
\<close>

theorem resolveImport_npm_not_marked_external:
  "resolveImport example_collaborators ''index.js'' (StringSpecifier ''npm:d3'')
     = Inr (Some \<lparr>id' = ''https://cdn.jsdelivr.net/npm/d3/+esm'', external = None\<rparr>)
   \<and> resolveImport example_collaborators ''index.js'' (StringSpecifier ''d3'')
     = Inr (Some \<lparr>id' = ''https://cdn.jsdelivr.net/npm/d3/+esm'', external = Some True\<rparr>)"
  by code_simp

text \<open>
  C5: \<open>resolveImport\<close> returns \<open>null\<close> for every specifier that is a node; for every
  specifier with the prefix \<open>observablehq:\<close> it returns, whatever the source, the client
  asset named by the rest of the specifier, marked external; for each first-party alias
  it returns that alias's client asset, marked external, as a URL relative to the
  source; and for every path import without a reserved prefix it returns \<open>null\<close>.
\<close>

theorem resolveImport_classifies:
  "resolveImport c source (NodeSpecifier node :: 'node specifier) = Inr None
   \<and> (startsWith specifier ''observablehq:'' \<longrightarrow>
        resolveImport c source (StringSpecifier specifier :: 'node specifier)
          = Inr (Some \<lparr>id' = relativeUrl c source
                              (getClientPath c (''./src/client/'' @ drop (length ''observablehq:'') specifier @ ''.js'')),
                        external = Some True\<rparr>))
   \<and> (\<forall>(alias, path) \<in> set first_party_aliases.
        resolveImport c source (StringSpecifier alias :: 'node specifier)
          = Inr (Some \<lparr>id' = relativeUrl c source (getClientPath c path), external = Some True\<rparr>))
   \<and> (isPathImport c pathSpecifier \<and> \<not> startsWith pathSpecifier ''observablehq:''
        \<and> \<not> startsWith pathSpecifier ''npm:'' \<longrightarrow>
        resolveImport c source (StringSpecifier pathSpecifier :: 'node specifier) = Inr None)"
proof (intro conjI impI ballI)
  show "resolveImport c source (NodeSpecifier node :: 'node specifier) = Inr None"
    by (simp add: resolveImport_def)
next
  assume "startsWith specifier ''observablehq:''"
  then show "resolveImport c source (StringSpecifier specifier :: 'node specifier)
          = Inr (Some \<lparr>id' = relativeUrl c source
                              (getClientPath c (''./src/client/'' @ drop (length ''observablehq:'') specifier @ ''.js'')),
                        external = Some True\<rparr>)"
    by (simp add: resolveImport_def client_asset_def)
next
  fix x assume x: "x \<in> set first_party_aliases"
  obtain a p where xp: "x = (a, p)" by (cases x)
  show "case x of (alias, path) \<Rightarrow> resolveImport c source (StringSpecifier alias :: 'node specifier)
          = Inr (Some \<lparr>id' = relativeUrl c source (getClientPath c path), external = Some True\<rparr>)"
    using resolveImport_alias [of a p c source] x xp by (simp add: client_asset_def)
next
  assume "isPathImport c pathSpecifier \<and> \<not> startsWith pathSpecifier ''observablehq:''
        \<and> \<not> startsWith pathSpecifier ''npm:''"
  then show "resolveImport c source (StringSpecifier pathSpecifier :: 'node specifier) = Inr None"
    by (simp add: resolveImport_path)
qed

theorem resolveImport_classifies_witness:
  "resolveImport example_collaborators ''index.js'' (NodeSpecifier ()) = Inr None
   \<and> startsWith ''observablehq:stdlib/dot'' ''observablehq:''
   \<and> resolveImport example_collaborators ''index.js'' (StringSpecifier ''observablehq:stdlib/dot'' :: unit specifier)
        = Inr (Some \<lparr>id' = ''index.js->/framework/./src/client/stdlib/dot.js'', external = Some True\<rparr>)
   \<and> (''npm:@observablehq/tex'', ''./src/client/stdlib/tex.js'') \<in> set first_party_aliases
   \<and> resolveImport example_collaborators ''index.js'' (StringSpecifier ''npm:@observablehq/tex'' :: unit specifier)
        = Inr (Some \<lparr>id' = ''index.js->/framework/./src/client/stdlib/tex.js'', external = Some True\<rparr>)
   \<and> isPathImport example_collaborators ''./util.js''
   \<and> \<not> startsWith ''./util.js'' ''observablehq:'' \<and> \<not> startsWith ''./util.js'' ''npm:''
   \<and> resolveImport example_collaborators ''index.js'' (StringSpecifier ''./util.js'' :: unit specifier) = Inr None"
proof -
  have b: "startsWith ''observablehq:stdlib/dot'' ''observablehq:''" by code_simp
  have c: "(''npm:@observablehq/tex'', ''./src/client/stdlib/tex.js'') \<in> set first_party_aliases"
    by (simp add: first_party_aliases_def)
  have d: "isPathImport example_collaborators ''./util.js'' \<and> \<not> startsWith ''./util.js'' ''observablehq:''
        \<and> \<not> startsWith ''./util.js'' ''npm:''" by code_simp
  have rel: "relativeUrl example_collaborators ''index.js'' (getClientPath example_collaborators path)
                = ''index.js->/framework/'' @ path" for path
    by (simp add: example_collaborators_def)
  note t = resolveImport_classifies [of example_collaborators "''index.js''" "()"
      "''observablehq:stdlib/dot''" "''./util.js''"]
  from t have 1: "resolveImport example_collaborators ''index.js'' (NodeSpecifier ()) = Inr None" by blast
  from t b have 2: "resolveImport example_collaborators ''index.js'' (StringSpecifier ''observablehq:stdlib/dot'' :: unit specifier)
        = Inr (Some \<lparr>id' = ''index.js->/framework/./src/client/stdlib/dot.js'', external = Some True\<rparr>)"
    by (simp add: rel)
  from t c have 3: "resolveImport example_collaborators ''index.js'' (StringSpecifier ''npm:@observablehq/tex'' :: unit specifier)
        = Inr (Some \<lparr>id' = ''index.js->/framework/./src/client/stdlib/tex.js'', external = Some True\<rparr>)"
    by (auto simp: rel)
  from t d have 4: "resolveImport example_collaborators ''index.js'' (StringSpecifier ''./util.js'' :: unit specifier) = Inr None"
    by blast
  show ?thesis using 1 2 3 4 b c d by blast
qed

section \<open>Properties of the \<open>transform\<close> hook\<close>

lemma toString_new_Sourcemap: "toString (new_Sourcemap code) = code"
  by (simp add: toString_def new_Sourcemap_def)

lemma rewrite_resolves_no_npm:
  "\<forall>node \<in> set nodes. \<not> is_npm node \<Longrightarrow> rewrite_resolves c nodes out = Inr out"
  by (induction nodes arbitrary: out) (auto simp: is_npm_def literal_of_def Let_def)


lemma replacements_start:
  "in_source_order lo len nodes \<Longrightarrow> x \<in> set (replacements c r nodes) \<Longrightarrow> lo \<le> fst x"
proof (induction nodes arbitrary: lo)
  case Nil
  then show ?case by (simp add: replacements_def)
next
  case (Cons node nodes)
  from Cons.prems(2) consider "x = (node_start node, node_end node, JSON_stringify c (r node))"
    | "x \<in> set (replacements c r nodes)"
    by (auto simp: replacements_def split: if_splits)
  then show ?case
  proof cases
    case 1
    then show ?thesis using Cons.prems(1) by simp
  next
    case 2
    then have "node_end node \<le> fst x" using Cons.IH [of "node_end node"] Cons.prems(1) by simp
    then show ?thesis using Cons.prems(1) by simp
  qed
qed







text \<open>
  C9: when the program has eligible calls and none of their literals begins with
  \<open>npm:\<close>, the hook does not return \<open>null\<close>; it returns the source text unchanged.
\<close>

theorem transform_without_npm:
  assumes "filter eligible (calls code) \<noteq> []"
    and "\<forall>node \<in> set (filter eligible (calls code)). \<not> is_npm node"
  shows "transform c calls code = Inr (Some code)"
  using assms rewrite_resolves_no_npm [of "filter eligible (calls code)" c "new_Sourcemap code"]
  by (simp add: transform_def Let_def toString_new_Sourcemap)

theorem transform_without_npm_witness:
  "filter eligible [meta_resolve_call 10 43 ''./data.csv''] \<noteq> []
   \<and> \<not> is_npm (meta_resolve_call 10 43 ''./data.csv'')
   \<and> transform example_collaborators (\<lambda>code. [meta_resolve_call 10 43 ''./data.csv''])
         ''const u = import.meta.resolve(\"./data.csv\");''
       = Inr (Some ''const u = import.meta.resolve(\"./data.csv\");'')"
proof -
  have e: "filter eligible [meta_resolve_call 10 43 ''./data.csv''] \<noteq> []" by code_simp
  have n: "\<not> is_npm (meta_resolve_call 10 43 ''./data.csv'')" by code_simp
  have "\<forall>node \<in> set (filter eligible [meta_resolve_call 10 43 ''./data.csv'']). \<not> is_npm node"
    using n by simp
  with e show ?thesis
    using n transform_without_npm [of "\<lambda>code. [meta_resolve_call 10 43 ''./data.csv'']"
        "''const u = import.meta.resolve(\"./data.csv\");''" example_collaborators]
    by blast
qed



text \<open>With one eligible call, the text before and after the call is the input's.\<close>

lemma transform_one_call:
  assumes "filter eligible (calls code) = [node]" "is_npm node"
    and "node_start node < node_end node" "node_end node \<le> length code"
    and "resolveNpmImport c (drop (length ''npm:'') (literal_of node)) = Inr resolution"
  shows "transform c calls code
           = Inr (Some (take (node_start node) code @ JSON_stringify c resolution
                          @ drop (node_end node) code))"
proof -
  have "rewrite_resolves c [node] (new_Sourcemap code)
          = Inr \<lparr>input = code, edits = [(node_start node, node_end node, JSON_stringify c resolution)]\<rparr>"
    using assms(2,5)
    by (simp add: is_npm_def literal_of_def Let_def replaceLeft_def new_Sourcemap_def)
  then show ?thesis
    using assms(1,3,4) by (simp add: transform_def Let_def toString_def)
qed

section \<open>Properties of \<open>visitMarkdownFiles\<close>\<close>

lemma markdown_only_filter: "markdown_only files = filter (\<lambda>file. extname file = ''.md'') files"
  by (induction files) auto

text \<open>
  C8: what \<open>visitMarkdownFiles\<close> yields is what \<open>visitFiles\<close> yields, filtered to
  the paths whose extension is \<open>.md\<close>, in the same order; it ends as \<open>visitFiles\<close>
  ends, and does not end when \<open>visitFiles\<close> does not.
\<close>

theorem visitMarkdownFiles_filter:
  "visitMarkdownFiles fs root
     = map_option (\<lambda>(files, result). (filter (\<lambda>file. extname file = ''.md'') files, result))
         (visitFiles fs root)"
  by (simp add: visitMarkdownFiles_def markdown_only_filter split: option.splits)

section \<open>Breadth-first order\<close>

lemma level_files_append: "level_files (a @ b) = level_files a @ level_files b"
  by (simp add: level_files_def)



section \<open>Properties of \<open>visitFiles\<close>\<close>

lemma visit_step_cases:
  assumes "visit_step fs root s = Next s'"
  obtains (a_file) path rest status where "queue s = path # rest" "stat fs path = Inr status"
      "dir_ino fs path = None"
      "s' = s\<lparr>queue := rest, yielded := yielded s @ [relative (cwd fs) root path]\<rparr>"
    | (a_dir) path rest i entries where "queue s = path # rest" "dir_ino fs path = Some i"
      "i \<notin> visited s" "readdir fs path = Inr entries"
      "s' = s\<lparr>queue := rest @ map (\<lambda>entry. join [path, entry]) entries,
              visited := insert i (visited s)\<rparr>"
  using assms
  by (auto simp: visit_step_def dir_ino_def split: list.splits sum.splits if_splits)



lemma visit_step_circular:
  assumes "queue s = path # rest" "stat fs path = Inr status" "isDirectory status"
    "ino status \<in> visited s"
  shows "visit_step fs root s = Throw (CircularDirectory path)"
  using assms by (simp add: visit_step_def)




lemma steps_visit_loop: "steps fs root n s = Some s' \<Longrightarrow> visit_loop fs root s = visit_loop fs root s'"
proof (induction n arbitrary: s)
  case 0
  then show ?case by simp
next
  case (Suc n)
  then obtain s1 where s1: "visit_step fs root s = Next s1" "steps fs root n s1 = Some s'"
    by (auto split: step.splits)
  then show ?case using Suc.IH [of s1] by (simp add: visit_loop.simps [of fs root s])
qed

lemma visit_step_visited: "visit_step fs root s = Next s' \<Longrightarrow> visited s \<subseteq> visited s'"
  by (erule visit_step_cases) auto

lemma steps_visited: "steps fs root n s = Some s' \<Longrightarrow> visited s \<subseteq> visited s'"
proof (induction n arbitrary: s)
  case 0
  then show ?case by simp
next
  case (Suc n)
  then obtain s1 where s1: "visit_step fs root s = Next s1" "steps fs root n s1 = Some s'"
    by (auto split: step.splits)
  then show ?case using Suc.IH [of s1] visit_step_visited [of fs root s s1] by blast
qed

lemma descends_then_visited:
  assumes "descends fs s i" "visit_step fs root s = Next s'"
  shows "i \<in> visited s'"
  using assms(2)
proof (cases rule: visit_step_cases)
  case (a_file path rest status)
  then show ?thesis using assms(1) by (simp add: descends_def)
next
  case (a_dir path rest j entries)
  then show ?thesis using assms(1) by (simp add: descends_def)
qed

text \<open>
  C10: the walk tells directories apart by the inode number alone. Whenever the path
  it takes from the queue is a directory whose inode number is in \<open>visited\<close>, whatever
  its device, the walk throws the circular-directory error with that path; and once a
  turn has descended into a directory with inode number \<open>i\<close>, no later turn of the
  walk descends into a directory with that number.
\<close>

theorem visited_keyed_by_ino:
  "(queue s = path # rest \<and> stat fs path = Inr status \<and> isDirectory status
      \<and> ino status \<in> visited s
      \<longrightarrow> visit_loop fs root s = Some (yielded s, Threw (CircularDirectory path)))
   \<and> (descends fs s1 i \<and> steps fs root (Suc n) s1 = Some s2 \<longrightarrow> \<not> descends fs s2 i)"
proof (intro conjI impI)
  assume "queue s = path # rest \<and> stat fs path = Inr status \<and> isDirectory status
      \<and> ino status \<in> visited s"
  then have "visit_step fs root s = Throw (CircularDirectory path)"
    by (auto intro: visit_step_circular)
  then show "visit_loop fs root s = Some (yielded s, Threw (CircularDirectory path))"
    by (simp add: visit_loop.simps [of fs root s])
next
  assume a: "descends fs s1 i \<and> steps fs root (Suc n) s1 = Some s2"
  then obtain s' where s': "visit_step fs root s1 = Next s'" "steps fs root n s' = Some s2"
    by (auto split: step.splits)
  have "i \<in> visited s'" using a s'(1) by (auto intro: descends_then_visited)
  then have "i \<in> visited s2" using steps_visited [OF s'(2)] by blast
  then show "\<not> descends fs s2 i" by (auto simp: descends_def split: list.splits)
qed

theorem visited_keyed_by_ino_witness:
  "queue \<lparr>queue = [''mnt''], visited = {2}, yielded = [''a.md'']\<rparr> = ''mnt'' # []
   \<and> stat mount_fs ''mnt'' = Inr \<lparr>isDirectory = True, ino = 2, dev = 2\<rparr>
   \<and> stat mount_fs ''.'' = Inr \<lparr>isDirectory = True, ino = 2, dev = 1\<rparr>
   \<and> visit_loop mount_fs ''.'' \<lparr>queue = [''mnt''], visited = {2}, yielded = [''a.md'']\<rparr>
       = Some ([''a.md''], Threw (CircularDirectory ''mnt''))
   \<and> descends mount_fs (initial_state ''.'') 2
   \<and> steps mount_fs ''.'' (Suc 1) (initial_state ''.'')
       = Some \<lparr>queue = [''mnt''], visited = {2}, yielded = [''a.md'']\<rparr>
   \<and> \<not> descends mount_fs \<lparr>queue = [''mnt''], visited = {2}, yielded = [''a.md'']\<rparr> 2"
proof -
  let ?s = "\<lparr>queue = [''mnt''], visited = {2}, yielded = [''a.md'']\<rparr>"
  have q: "queue ?s = ''mnt'' # []" by simp
  have m: "stat mount_fs ''mnt'' = Inr \<lparr>isDirectory = True, ino = 2, dev = 2\<rparr>"
    by (simp add: mount_fs_def)
  have r: "stat mount_fs ''.'' = Inr \<lparr>isDirectory = True, ino = 2, dev = 1\<rparr>"
    by (simp add: mount_fs_def)
  have d: "descends mount_fs (initial_state ''.'') 2" by code_simp
  have st: "steps mount_fs ''.'' (Suc 1) (initial_state ''.'') = Some ?s" by code_simp
  note t = visited_keyed_by_ino [of ?s "''mnt''" "[]" mount_fs "\<lparr>isDirectory = True, ino = 2, dev = 2\<rparr>"
      "''.''" "initial_state ''.''" 2 1 ?s]
  have 1: "visit_loop mount_fs ''.'' ?s = Some ([''a.md''], Threw (CircularDirectory ''mnt''))"
    using t q m by simp
  have 2: "\<not> descends mount_fs ?s 2" using t d st by blast
  show ?thesis using q m r d st 1 2 by blast
qed







section \<open>The walk over a tree\<close>









end
